theory Spec2Isabelle
  imports
    Complex_Main
    "HOL-Library.Multiset"
    "HOL-Library.Product_Lexorder"
    "HOL-Library.Char_ord"
    "HOL-Library.List_Lexorder"
begin

section \<open>The trips converter \<open>examples/trips/generate_data.py\<close>\<close>

text \<open>
  The script reads a table of vehicle positions, keeps a time window, sorts, optionally
  samples vehicles, groups the rows by vehicle and packs every attribute into one flat
  array per attribute, indexed by a shared \<open>offsets\<close> array. It then builds an Arrow table
  over these arrays and writes it out.

  Conventions of the embedding.
  \<^item> A pandas data frame is the list of its column names together with the list of its
    rows. A row carries one cell for each of the nine columns the script can read; the
    cell of a column that is not among the frame's \<open>columns\<close> is never read. Cells are
    never null.
  \<^item> Numeric cells are \<open>real\<close>. The narrowing store into a \<open>float32\<close> array is the
    parameter \<open>f32\<close>.
  \<^item> The identifier and edge columns have arbitrary cell types \<open>'v\<close> (ordered, as
    sorting and grouping need) and \<open>'e\<close>; Python's \<open>str\<close> on them is the parameters
    \<open>str_v\<close> and \<open>str_e\<close>.
  \<^item> The constant \<open>SAMPLE_VEHICLES\<close> of line 19 is a parameter: \<open>None\<close>, or an integer.
  \<^item> The permutation drawn by \<open>np.random.choice\<close> comes from the parameter \<open>rng\<close>, which
    maps the population size to the permutation of the indices drawn in this run.
  \<^item> Every exception the script can raise up to the table is a value of \<open>error\<close>, and
    a function that can raise returns \<open>error + 'a\<close>.
  \<^item> The script ends by serialising the table, compressing it and printing sizes
    (lines 154--174). These steps work on bytes and files and are not part of the model:
    \<open>main\<close> returns the table together with the numbers the script reports.
\<close>

subsection \<open>Data\<close>

datatype error = KeyError | ValueError | IndexError | OverflowError | ArrowInvalid

record ('v, 'e) row =
  vehicle_id :: 'v
  timestep_time :: real
  vehicle_x :: real
  vehicle_y :: real
  vehicle_speed :: real
  vehicle_edge :: 'e
  vehicle_pos :: real
  vehicle_speedRelative :: real
  vehicle_angle :: real

record ('v, 'e) dataframe =
  columns :: "string list"
  rows :: "('v, 'e) row list"

text \<open>The arrays of lines 52--62 and the running offset of line 65.\<close>

record arrays =
  offsets :: "nat list"
  coords :: "(real \<times> real) list"
  timestamps :: "real list"
  speeds :: "real list"
  edges :: "string list"
  positions :: "real list"
  relative_speeds :: "real list"
  angles :: "real list"
  vehicle_ids :: "string list"
  current_offset :: nat

text \<open>Arrow arrays, as far as the script builds them.\<close>

datatype arrow =
    FloatArray "real list"
  | StringArray "string list"
  | NullArray nat
  | FixedSizeListArray arrow nat
  | ListArray "nat list" arrow

record outcome =
  table :: "(string \<times> arrow) list"
  geoms_num :: nat
  coord_num :: nat
  min_timestamp :: real
  max_timestamp :: real

subsection \<open>Sequencing of steps that can raise\<close>

definition and_then :: "error + 'a \<Rightarrow> ('a \<Rightarrow> error + 'b) \<Rightarrow> error + 'b" where
  "and_then m f = (case m of Inl e \<Rightarrow> Inl e | Inr x \<Rightarrow> f x)"

subsection \<open>Filter and sort (lines 23 and 29)\<close>

definition time_filter :: "('v, 'e) row list \<Rightarrow> ('v, 'e) row list" where
  "time_filter rs =
     filter (\<lambda>r. timestep_time r < 7.25 * 3600 \<and> timestep_time r > 7 * 3600) rs"

text \<open>
  \<open>sort_values\<close> on two columns orders the rows by the pair of keys, lexicographically,
  and keeps rows of equal keys in their order.
\<close>

definition sort_values :: "('v::linorder, 'e) row list \<Rightarrow> ('v, 'e) row list" where
  "sort_values rs = sort_key (\<lambda>r. (vehicle_id r, timestep_time r)) rs"

subsection \<open>Sampling (lines 32--39)\<close>

text \<open>\<open>Series.unique\<close>: the distinct values in order of first appearance.\<close>

fun unique :: "'a list \<Rightarrow> 'a list" where
  "unique [] = []"
| "unique (x # xs) = x # unique (filter (\<lambda>y. y \<noteq> x) xs)"

text \<open>
  \<open>np.random.choice(a, size=k, replace=False)\<close>: the first \<open>k\<close> entries of a
  permutation of the indices of \<open>a\<close>, then \<open>a\<close> read at these indices.
\<close>

definition choice :: "(nat \<Rightarrow> nat list) \<Rightarrow> 'a list \<Rightarrow> int \<Rightarrow> error + 'a list" where
  "choice rng a k =
     (if a = [] \<and> k \<noteq> 0 then Inl ValueError
      else if k > int (length a) then Inl ValueError
      else if k < 0 then Inl ValueError
      else let idx = take (nat k) (rng (length a)) in
        if \<forall>i \<in> set idx. i < length a then Inr (map (\<lambda>i. a ! i) idx)
        else Inl IndexError)"

definition sample_rows ::
  "(nat \<Rightarrow> nat list) \<Rightarrow> int option \<Rightarrow> ('v, 'e) row list \<Rightarrow> error + ('v, 'e) row list" where
  "sample_rows rng SAMPLE_VEHICLES rs =
     (case SAMPLE_VEHICLES of
        None \<Rightarrow> Inr rs
      | Some n \<Rightarrow>
          let unique_vehicles = unique (map vehicle_id rs) in
          and_then (choice rng unique_vehicles (min n (int (length unique_vehicles))))
            (\<lambda>sampled_vehicles.
               Inr (filter (\<lambda>r. vehicle_id r \<in> set sampled_vehicles) rs)))"

subsection \<open>Grouping (line 43)\<close>

text \<open>
  \<open>groupby\<close> iterates over the distinct keys in ascending order; each group holds the
  rows of its key in the order of the frame.
\<close>

definition grouped :: "('v::linorder, 'e) row list \<Rightarrow> ('v \<times> ('v, 'e) row list) list" where
  "grouped rs =
     map (\<lambda>k. (k, filter (\<lambda>r. vehicle_id r = k) rs)) (sort (unique (map vehicle_id rs)))"

subsection \<open>Stores into numpy arrays\<close>

text \<open>
  \<open>a[lo:hi] = vs\<close>: the slice is clipped to the array; the values must have the length
  of the clipped slice, or length one (then they are broadcast).
\<close>

definition setslice :: "'a list \<Rightarrow> nat \<Rightarrow> nat \<Rightarrow> 'a list \<Rightarrow> error + 'a list" where
  "setslice a lo hi vs =
     (let start = min lo (length a); stop = max start (min hi (length a)) in
      if length vs = stop - start then Inr (take start a @ vs @ drop stop a)
      else if length vs = 1
        then Inr (take start a @ replicate (stop - start) (hd vs) @ drop stop a)
      else Inl ValueError)"

text \<open>\<open>a[lo:hi] = c\<close> for a scalar \<open>c\<close>.\<close>

definition fillslice :: "'a list \<Rightarrow> nat \<Rightarrow> nat \<Rightarrow> 'a \<Rightarrow> 'a list" where
  "fillslice a lo hi c =
     (let start = min lo (length a); stop = max start (min hi (length a)) in
      take start a @ replicate (stop - start) c @ drop stop a)"

text \<open>\<open>a[lo:hi, 0] = vs\<close> and \<open>a[lo:hi, 1] = vs\<close> on an array of pairs.\<close>

definition setslice_col0 ::
  "('a \<times> 'a) list \<Rightarrow> nat \<Rightarrow> nat \<Rightarrow> 'a list \<Rightarrow> error + ('a \<times> 'a) list" where
  "setslice_col0 a lo hi vs =
     and_then (setslice (map fst a) lo hi vs) (\<lambda>xs. Inr (zip xs (map snd a)))"

definition setslice_col1 ::
  "('a \<times> 'a) list \<Rightarrow> nat \<Rightarrow> nat \<Rightarrow> 'a list \<Rightarrow> error + ('a \<times> 'a) list" where
  "setslice_col1 a lo hi vs =
     and_then (setslice (map snd a) lo hi vs) (\<lambda>ys. Inr (zip (map fst a) ys))"

text \<open>\<open>a[j] = v\<close> on an \<open>int32\<close> array, for a non-negative Python integer \<open>v\<close>.\<close>

definition setitem_int32 :: "nat list \<Rightarrow> nat \<Rightarrow> nat \<Rightarrow> error + nat list" where
  "setitem_int32 a j v =
     (if length a \<le> j then Inl IndexError
      else if 2147483647 < v then Inl OverflowError
      else Inr (a[j := v]))"

subsection \<open>The loop over the groups (lines 66--116)\<close>

definition loop_body ::
  "(real \<Rightarrow> real) \<Rightarrow> ('v \<Rightarrow> string) \<Rightarrow> ('e \<Rightarrow> string) \<Rightarrow> string list \<Rightarrow>
   nat \<Rightarrow> 'v \<times> ('v, 'e) row list \<Rightarrow> arrays \<Rightarrow> error + arrays" where
  "loop_body f32 str_v str_e cols i vg s =
     (let group = snd vg;
          num_positions = length group;
          lo = current_offset s;
          hi = current_offset s + num_positions
      in
      and_then
        (if ''vehicle_x'' \<in> set cols
         then setslice_col0 (coords s) lo hi (map (\<lambda>r. f32 (vehicle_x r)) group)
         else Inl KeyError) (\<lambda>c0.
      and_then
        (if ''vehicle_y'' \<in> set cols
         then setslice_col1 c0 lo hi (map (\<lambda>r. f32 (vehicle_y r)) group)
         else Inl KeyError) (\<lambda>c1.
      and_then (setslice (timestamps s) lo hi (map (\<lambda>r. f32 (timestep_time r)) group)) (\<lambda>ts.
      and_then
        (if ''vehicle_speed'' \<in> set cols
         then setslice (speeds s) lo hi (map (\<lambda>r. f32 (vehicle_speed r)) group)
         else Inr (fillslice (speeds s) lo hi (f32 0))) (\<lambda>sp.
      and_then
        (Inr (edges s @
           (if ''vehicle_edge'' \<in> set cols
            then map (\<lambda>r. str_e (vehicle_edge r)) group
            else replicate num_positions ''''))) (\<lambda>es.
      and_then
        (if ''vehicle_pos'' \<in> set cols
         then setslice (positions s) lo hi (map (\<lambda>r. f32 (vehicle_pos r)) group)
         else Inr (fillslice (positions s) lo hi (f32 0))) (\<lambda>ps.
      and_then
        (if ''vehicle_speedRelative'' \<in> set cols
         then setslice (relative_speeds s) lo hi
                (map (\<lambda>r. f32 (vehicle_speedRelative r)) group)
         else Inr (fillslice (relative_speeds s) lo hi (f32 1))) (\<lambda>rsp.
      and_then
        (if ''vehicle_angle'' \<in> set cols
         then setslice (angles s) lo hi (map (\<lambda>r. f32 (vehicle_angle r)) group)
         else Inr (fillslice (angles s) lo hi (f32 0))) (\<lambda>an.
      and_then (setitem_int32 (offsets s) (i + 1) (current_offset s + num_positions)) (\<lambda>offs.
        Inr \<lparr>offsets = offs, coords = c1, timestamps = ts, speeds = sp, edges = es,
             positions = ps, relative_speeds = rsp, angles = an,
             vehicle_ids = vehicle_ids s @ [str_v (fst vg)],
             current_offset = current_offset s + num_positions\<rparr>))))))))))"

fun loop ::
  "(real \<Rightarrow> real) \<Rightarrow> ('v \<Rightarrow> string) \<Rightarrow> ('e \<Rightarrow> string) \<Rightarrow> string list \<Rightarrow>
   nat \<Rightarrow> ('v \<times> ('v, 'e) row list) list \<Rightarrow> arrays \<Rightarrow> error + arrays" where
  "loop f32 str_v str_e cols i [] s = Inr s"
| "loop f32 str_v str_e cols i (vg # gs) s =
     and_then (loop_body f32 str_v str_e cols i vg s) (loop f32 str_v str_e cols (Suc i) gs)"

text \<open>Lines 43--116: group, allocate the arrays, run the loop.\<close>

definition init_arrays :: "nat \<Rightarrow> nat \<Rightarrow> arrays" where
  "init_arrays gn cn =
     \<lparr>offsets = replicate (gn + 1) 0, coords = replicate cn (0, 0),
      timestamps = replicate cn 0, speeds = replicate cn 0, edges = [],
      positions = replicate cn 0, relative_speeds = replicate cn 0,
      angles = replicate cn 0, vehicle_ids = [], current_offset = 0\<rparr>"

definition flatten ::
  "(real \<Rightarrow> real) \<Rightarrow> ('v::linorder \<Rightarrow> string) \<Rightarrow> ('e \<Rightarrow> string) \<Rightarrow> string list \<Rightarrow>
   ('v, 'e) row list \<Rightarrow> error + arrays" where
  "flatten f32 str_v str_e cols rs =
     loop f32 str_v str_e cols 0 (grouped rs) (init_arrays (length (grouped rs)) (length rs))"

subsection \<open>Timestamp range (lines 124--125)\<close>

text \<open>\<open>ndarray.min\<close> and \<open>ndarray.max\<close> raise \<open>ValueError\<close> on an array of size zero.\<close>

definition np_min :: "real list \<Rightarrow> error + real" where
  "np_min xs = (case xs of [] \<Rightarrow> Inl ValueError | x # ys \<Rightarrow> Inr (fold min ys x))"

definition np_max :: "real list \<Rightarrow> error + real" where
  "np_max xs = (case xs of [] \<Rightarrow> Inl ValueError | x # ys \<Rightarrow> Inr (fold max ys x))"

subsection \<open>The Arrow table (lines 131--152)\<close>

text \<open>\<open>coords.flatten("C")\<close>: row-major, each pair laid out as x then y.\<close>

definition flatten_C :: "('a \<times> 'a) list \<Rightarrow> 'a list" where
  "flatten_C cs = concat (map (\<lambda>c. [fst c, snd c]) cs)"

text \<open>\<open>pa.array\<close> on a Python list of strings; an empty list has no type to infer.\<close>

definition pa_array_str :: "string list \<Rightarrow> arrow" where
  "pa_array_str xs = (if xs = [] then NullArray 0 else StringArray xs)"

definition FixedSizeListArray_from_arrays :: "arrow \<Rightarrow> nat \<Rightarrow> error + arrow" where
  "FixedSizeListArray_from_arrays vals n =
     (case vals of
        FloatArray xs \<Rightarrow>
          if n = 0 \<or> length xs mod n \<noteq> 0 then Inl ArrowInvalid
          else Inr (FixedSizeListArray vals n)
      | _ \<Rightarrow> Inr (FixedSizeListArray vals n))"

definition ListArray_from_arrays :: "nat list \<Rightarrow> arrow \<Rightarrow> error + arrow" where
  "ListArray_from_arrays offs vals =
     (if offs = [] then Inl ArrowInvalid else Inr (ListArray offs vals))"

fun arrow_len :: "arrow \<Rightarrow> nat" where
  "arrow_len (FloatArray xs) = length xs"
| "arrow_len (StringArray xs) = length xs"
| "arrow_len (NullArray n) = n"
| "arrow_len (FixedSizeListArray a n) = arrow_len a div n"
| "arrow_len (ListArray offs a) = length offs - 1"

text \<open>\<open>pa.table\<close> on a dictionary: the columns in insertion order, all of one length.\<close>

definition pa_table :: "(string \<times> arrow) list \<Rightarrow> error + (string \<times> arrow) list" where
  "pa_table cs =
     (if \<forall>c \<in> set cs. arrow_len (snd c) = arrow_len (snd (hd cs)) then Inr cs
      else Inl ArrowInvalid)"

definition assemble :: "arrays \<Rightarrow> error + (string \<times> arrow) list" where
  "assemble a =
     and_then (FixedSizeListArray_from_arrays (FloatArray (flatten_C (coords a))) 2)
       (\<lambda>coords_fixed_size_list.
     and_then (ListArray_from_arrays (offsets a) coords_fixed_size_list) (\<lambda>linestrings_arr.
     and_then (ListArray_from_arrays (offsets a) (FloatArray (timestamps a))) (\<lambda>timestamp_arr.
     and_then (ListArray_from_arrays (offsets a) (FloatArray (speeds a))) (\<lambda>speeds_arr.
     and_then (ListArray_from_arrays (offsets a) (pa_array_str (edges a))) (\<lambda>edges_arr.
     and_then (ListArray_from_arrays (offsets a) (FloatArray (positions a))) (\<lambda>positions_arr.
     and_then (ListArray_from_arrays (offsets a) (FloatArray (relative_speeds a)))
       (\<lambda>relative_speeds_arr.
     and_then (ListArray_from_arrays (offsets a) (FloatArray (angles a))) (\<lambda>angles_arr.
       pa_table
         [(''geometry'', linestrings_arr),
          (''timestamps'', timestamp_arr),
          (''speeds'', speeds_arr),
          (''edges'', edges_arr),
          (''positions'', positions_arr),
          (''relative_speeds'', relative_speeds_arr),
          (''angles'', angles_arr),
          (''vehicle_id'', pa_array_str (vehicle_ids a))]))))))))"

subsection \<open>The whole script\<close>

text \<open>Lines 22--40: the rows that remain after the filter, the sort and the sampling.\<close>

definition retained_rows ::
  "int option \<Rightarrow> (nat \<Rightarrow> nat list) \<Rightarrow> ('v::linorder, 'e) dataframe \<Rightarrow>
   error + ('v, 'e) row list" where
  "retained_rows SAMPLE_VEHICLES rng df =
     (if ''timestep_time'' \<notin> set (columns df) then Inl KeyError
      else if ''vehicle_id'' \<notin> set (columns df) then Inl KeyError
      else sample_rows rng SAMPLE_VEHICLES (sort_values (time_filter (rows df))))"

definition main ::
  "(real \<Rightarrow> real) \<Rightarrow> ('v::linorder \<Rightarrow> string) \<Rightarrow> ('e \<Rightarrow> string) \<Rightarrow>
   int option \<Rightarrow> (nat \<Rightarrow> nat list) \<Rightarrow> ('v, 'e) dataframe \<Rightarrow> error + outcome" where
  "main f32 str_v str_e SAMPLE_VEHICLES rng df =
     and_then (retained_rows SAMPLE_VEHICLES rng df) (\<lambda>rs.
     and_then (flatten f32 str_v str_e (columns df) rs) (\<lambda>a.
     and_then (np_min (timestamps a)) (\<lambda>mn.
     and_then (np_max (timestamps a)) (\<lambda>mx.
     and_then (assemble a) (\<lambda>t.
       Inr \<lparr>table = t, geoms_num = length (grouped rs), coord_num = length rs,
            min_timestamp = mn, max_timestamp = mx\<rparr>)))))"

subsection \<open>Reading the output\<close>

text \<open>
  Row \<open>i\<close> of a list column with offsets \<open>offs\<close> over the flat values \<open>vals\<close>: the
  elements from \<open>offs ! i\<close> up to, not including, \<open>offs ! (i + 1)\<close>.
\<close>

definition trip_slice :: "nat list \<Rightarrow> 'a list \<Rightarrow> nat \<Rightarrow> 'a list" where
  "trip_slice offs vals i = take (offs ! Suc i - offs ! i) (drop (offs ! i) vals)"

text \<open>The column of the output table with a given name, if the script returned a table.\<close>

definition column :: "string \<Rightarrow> error + outcome \<Rightarrow> arrow option" where
  "column name res = (case res of Inl e \<Rightarrow> None | Inr out \<Rightarrow> map_of (table out) name)"

text \<open>Python's \<open>str\<close> on integers, for frames whose identifiers are integers.\<close>

fun str_nat :: "nat \<Rightarrow> string" where
  "str_nat n =
     (if n < 10 then [char_of (48 + n)]
      else str_nat (n div 10) @ [char_of (48 + n mod 10)])"

declare str_nat.simps [simp del]

definition str_int :: "int \<Rightarrow> string" where
  "str_int i = (if i < 0 then CHR ''-'' # str_nat (nat (- i)) else str_nat (nat i))"

section \<open>Closed forms of the arrays\<close>

text \<open>
  The functions of this section are not part of the script. They describe what the loop
  leaves in the arrays, and the lemmas below prove that the loop computes them.
  \<open>place a lo vs\<close> overwrites \<open>a\<close> from index \<open>lo\<close> with \<open>vs\<close>; the \<open>trip_\<close> functions give
  the values one group contributes to each attribute; \<open>running\<close> gives the running sums of
  the group sizes; \<open>packed\<close> is the final content of the arrays.
\<close>

definition place :: "'a list \<Rightarrow> nat \<Rightarrow> 'a list \<Rightarrow> 'a list" where
  "place a lo vs = take lo a @ vs @ drop (lo + length vs) a"

definition trip_coords :: "(real \<Rightarrow> real) \<Rightarrow> ('v, 'e) row list \<Rightarrow> (real \<times> real) list" where
  "trip_coords f32 g = zip (map (\<lambda>r. f32 (vehicle_x r)) g) (map (\<lambda>r. f32 (vehicle_y r)) g)"

definition trip_timestamps :: "(real \<Rightarrow> real) \<Rightarrow> ('v, 'e) row list \<Rightarrow> real list" where
  "trip_timestamps f32 g = map (\<lambda>r. f32 (timestep_time r)) g"

definition trip_speeds :: "(real \<Rightarrow> real) \<Rightarrow> string list \<Rightarrow> ('v, 'e) row list \<Rightarrow> real list" where
  "trip_speeds f32 cols g =
     (if ''vehicle_speed'' \<in> set cols then map (\<lambda>r. f32 (vehicle_speed r)) g
      else replicate (length g) (f32 0))"

definition trip_edges :: "('e \<Rightarrow> string) \<Rightarrow> string list \<Rightarrow> ('v, 'e) row list \<Rightarrow> string list" where
  "trip_edges str_e cols g =
     (if ''vehicle_edge'' \<in> set cols then map (\<lambda>r. str_e (vehicle_edge r)) g
      else replicate (length g) '''')"

definition trip_positions :: "(real \<Rightarrow> real) \<Rightarrow> string list \<Rightarrow> ('v, 'e) row list \<Rightarrow> real list" where
  "trip_positions f32 cols g =
     (if ''vehicle_pos'' \<in> set cols then map (\<lambda>r. f32 (vehicle_pos r)) g
      else replicate (length g) (f32 0))"

definition trip_relative_speeds ::
  "(real \<Rightarrow> real) \<Rightarrow> string list \<Rightarrow> ('v, 'e) row list \<Rightarrow> real list" where
  "trip_relative_speeds f32 cols g =
     (if ''vehicle_speedRelative'' \<in> set cols then map (\<lambda>r. f32 (vehicle_speedRelative r)) g
      else replicate (length g) (f32 1))"

definition trip_angles :: "(real \<Rightarrow> real) \<Rightarrow> string list \<Rightarrow> ('v, 'e) row list \<Rightarrow> real list" where
  "trip_angles f32 cols g =
     (if ''vehicle_angle'' \<in> set cols then map (\<lambda>r. f32 (vehicle_angle r)) g
      else replicate (length g) (f32 0))"

definition step :: 
  "(real \<Rightarrow> real) \<Rightarrow> ('v \<Rightarrow> string) \<Rightarrow> ('e \<Rightarrow> string) \<Rightarrow> string list \<Rightarrow>
   nat \<Rightarrow> 'v \<times> ('v, 'e) row list \<Rightarrow> arrays \<Rightarrow> arrays" where
  "step f32 str_v str_e cols i vg s =
     \<lparr>offsets = place (offsets s) (Suc i) [current_offset s + length (snd vg)],
      coords = place (coords s) (current_offset s) (trip_coords f32 (snd vg)),
      timestamps = place (timestamps s) (current_offset s) (trip_timestamps f32 (snd vg)),
      speeds = place (speeds s) (current_offset s) (trip_speeds f32 cols (snd vg)),
      edges = edges s @ trip_edges str_e cols (snd vg),
      positions = place (positions s) (current_offset s) (trip_positions f32 cols (snd vg)),
      relative_speeds =
        place (relative_speeds s) (current_offset s) (trip_relative_speeds f32 cols (snd vg)),
      angles = place (angles s) (current_offset s) (trip_angles f32 cols (snd vg)),
      vehicle_ids = vehicle_ids s @ [str_v (fst vg)],
      current_offset = current_offset s + length (snd vg)\<rparr>"

definition fits :: "nat \<Rightarrow> arrays \<Rightarrow> bool" where
  "fits n s \<longleftrightarrow>
     length (coords s) = n \<and> length (timestamps s) = n \<and> length (speeds s) = n \<and>
     length (positions s) = n \<and> length (relative_speeds s) = n \<and> length (angles s) = n"

fun running :: "nat \<Rightarrow> nat list \<Rightarrow> nat list" where
  "running c [] = []"
| "running c (n # ns) = (c + n) # running (c + n) ns"

definition total :: "('v \<times> 'r list) list \<Rightarrow> nat" where
  "total gs = sum_list (map (\<lambda>g. length (snd g)) gs)"

definition after_loop ::
  "(real \<Rightarrow> real) \<Rightarrow> ('v \<Rightarrow> string) \<Rightarrow> ('e \<Rightarrow> string) \<Rightarrow> string list \<Rightarrow>
   nat \<Rightarrow> ('v \<times> ('v, 'e) row list) list \<Rightarrow> arrays \<Rightarrow> arrays" where
  "after_loop f32 str_v str_e cols i gs s =
     \<lparr>offsets = place (offsets s) (Suc i) (running (current_offset s) (map (\<lambda>g. length (snd g)) gs)),
      coords = place (coords s) (current_offset s) (concat (map (\<lambda>g. trip_coords f32 (snd g)) gs)),
      timestamps =
        place (timestamps s) (current_offset s) (concat (map (\<lambda>g. trip_timestamps f32 (snd g)) gs)),
      speeds =
        place (speeds s) (current_offset s) (concat (map (\<lambda>g. trip_speeds f32 cols (snd g)) gs)),
      edges = edges s @ concat (map (\<lambda>g. trip_edges str_e cols (snd g)) gs),
      positions =
        place (positions s) (current_offset s)
          (concat (map (\<lambda>g. trip_positions f32 cols (snd g)) gs)),
      relative_speeds =
        place (relative_speeds s) (current_offset s)
          (concat (map (\<lambda>g. trip_relative_speeds f32 cols (snd g)) gs)),
      angles =
        place (angles s) (current_offset s) (concat (map (\<lambda>g. trip_angles f32 cols (snd g)) gs)),
      vehicle_ids = vehicle_ids s @ map (\<lambda>g. str_v (fst g)) gs,
      current_offset = current_offset s + total gs\<rparr>"

definition packed ::
  "(real \<Rightarrow> real) \<Rightarrow> ('v \<Rightarrow> string) \<Rightarrow> ('e \<Rightarrow> string) \<Rightarrow> string list \<Rightarrow>
   ('v \<times> ('v, 'e) row list) list \<Rightarrow> arrays" where
  "packed f32 str_v str_e cols gs =
     \<lparr>offsets = 0 # running 0 (map (\<lambda>g. length (snd g)) gs),
      coords = concat (map (\<lambda>g. trip_coords f32 (snd g)) gs),
      timestamps = concat (map (\<lambda>g. trip_timestamps f32 (snd g)) gs),
      speeds = concat (map (\<lambda>g. trip_speeds f32 cols (snd g)) gs),
      edges = concat (map (\<lambda>g. trip_edges str_e cols (snd g)) gs),
      positions = concat (map (\<lambda>g. trip_positions f32 cols (snd g)) gs),
      relative_speeds = concat (map (\<lambda>g. trip_relative_speeds f32 cols (snd g)) gs),
      angles = concat (map (\<lambda>g. trip_angles f32 cols (snd g)) gs),
      vehicle_ids = map (\<lambda>g. str_v (fst g)) gs,
      current_offset = total gs\<rparr>"

section \<open>Example data\<close>

text \<open>
  A small frame with integer identifiers: three vehicles with two, three and one rows
  inside the time window, and two rows on or outside its bounds.
\<close>

definition example_cols :: "string list" where
  "example_cols =
     [''timestep_time'', ''vehicle_id'', ''vehicle_x'', ''vehicle_y'', ''vehicle_speed'',
      ''vehicle_edge'', ''vehicle_pos'', ''vehicle_speedRelative'', ''vehicle_angle'']"

definition example_row :: "nat \<Rightarrow> real \<Rightarrow> (nat, nat) row" where
  "example_row v t =
     \<lparr>vehicle_id = v, timestep_time = t, vehicle_x = t / 100, vehicle_y = 2,
      vehicle_speed = 3, vehicle_edge = v + 7, vehicle_pos = 4,
      vehicle_speedRelative = 5, vehicle_angle = 6\<rparr>"

definition example_rows :: "(nat, nat) row list" where
  "example_rows =
     [example_row 2 25300, example_row 1 25202, example_row 2 25201, example_row 3 25250,
      example_row 1 25201, example_row 2 25250]"

definition example_frame :: "(nat, nat) dataframe" where
  "example_frame =
     \<lparr>columns = example_cols,
      rows = example_row 1 26100 # example_row 3 25200 # example_rows\<rparr>"

definition outside_frame :: "(nat, nat) dataframe" where
  "outside_frame =
     \<lparr>columns = example_cols, rows = [example_row 1 26100, example_row 3 25200]\<rparr>"

text \<open>The rows of \<open>example_frame\<close> that the filter keeps, sorted.\<close>

definition example_sorted :: "(nat, nat) row list" where
  "example_sorted =
     [example_row 1 25201, example_row 1 25202, example_row 2 25201, example_row 2 25250,
      example_row 2 25300, example_row 3 25250]"

text \<open>A frame whose identifiers are integers, and rows whose identifiers are strings.\<close>

definition int_row :: "int \<Rightarrow> real \<Rightarrow> (int, nat) row" where
  "int_row v t =
     \<lparr>vehicle_id = v, timestep_time = t, vehicle_x = 1, vehicle_y = 2,
      vehicle_speed = 3, vehicle_edge = 7, vehicle_pos = 4,
      vehicle_speedRelative = 5, vehicle_angle = 6\<rparr>"

definition int_frame :: "(int, nat) dataframe" where
  "int_frame = \<lparr>columns = example_cols, rows = [int_row 10 25300, int_row 2 25400]\<rparr>"

definition named_row :: "string \<Rightarrow> real \<Rightarrow> (string, nat) row" where
  "named_row v t =
     \<lparr>vehicle_id = v, timestep_time = t, vehicle_x = 1, vehicle_y = 2,
      vehicle_speed = 3, vehicle_edge = 7, vehicle_pos = 4,
      vehicle_speedRelative = 5, vehicle_angle = 6\<rparr>"

definition named_rows :: "(string, nat) row list" where
  "named_rows = [named_row ''veh10'' 25300, named_row ''veh2'' 25400]"

definition required_cols :: "string list" where
  "required_cols = [''timestep_time'', ''vehicle_id'', ''vehicle_x'', ''vehicle_y'']"

text \<open>
  What \<open>np.random\<close> guarantees of the permutation it draws for a population of size \<open>n\<close>:
  it lists every index below \<open>n\<close> once.
\<close>

definition permutation_of :: "nat \<Rightarrow> nat list \<Rightarrow> bool" where
  "permutation_of n p \<longleftrightarrow> distinct p \<and> set p = {0..<n}"

text \<open>
  For the statement that the draw favours no vehicle: \<open>draws n k X\<close> are the permutations of
  the \<open>n\<close> indices whose first \<open>k\<close> entries are the index set \<open>X\<close>, \<open>positions_of u S\<close> are the
  indices at which the list \<open>u\<close> holds an element of \<open>S\<close>, and \<open>draws_selecting N rs S\<close> are the
  permutations under which the sampling step, with sample count \<open>N\<close>, keeps exactly the rows
  of the vehicles in \<open>S\<close>.
\<close>

definition draws :: "nat \<Rightarrow> nat \<Rightarrow> nat set \<Rightarrow> nat list set" where
  "draws n k X = {p. permutation_of n p \<and> set (take k p) = X}"

definition positions_of :: "'a list \<Rightarrow> 'a set \<Rightarrow> nat set" where
  "positions_of u S = {i. i < length u \<and> u ! i \<in> S}"

definition draws_selecting :: "int \<Rightarrow> ('v, 'e) row list \<Rightarrow> 'v set \<Rightarrow> nat list set" where
  "draws_selecting N rs S =
     {p. permutation_of (card (vehicle_id ` set rs)) p
         \<and> sample_rows (\<lambda>_. p) (Some N) rs = Inr (filter (\<lambda>r. vehicle_id r \<in> S) rs)}"

section \<open>The loop computes the closed forms\<close>

subsection \<open>Stores as placements\<close>

lemma length_place: "lo + length vs \<le> length a \<Longrightarrow> length (place a lo vs) = length a"
  by (simp add: place_def)

lemma place_Nil: "place a lo [] = a"
  by (simp add: place_def)

lemma place_place:
  "k = lo + length vs \<Longrightarrow> k + length ws \<le> length a \<Longrightarrow>
   place (place a lo vs) k ws = place a lo (vs @ ws)"
  by (simp add: place_def add.commute add.left_commute)

lemma place_all: "length vs = length a \<Longrightarrow> place a 0 vs = vs"
  by (simp add: place_def)

lemma setslice_place:
  "hi = lo + length vs \<Longrightarrow> hi \<le> length a \<Longrightarrow> setslice a lo hi vs = Inr (place a lo vs)"
  by (simp add: setslice_def place_def Let_def min_def max_def)

lemma fillslice_place:
  "hi = lo + n \<Longrightarrow> hi \<le> length a \<Longrightarrow> fillslice a lo hi c = place a lo (replicate n c)"
  by (simp add: fillslice_def place_def Let_def min_def max_def)

lemma setitem_place:
  "j < length a \<Longrightarrow> v \<le> 2147483647 \<Longrightarrow> setitem_int32 a j v = Inr (place a j [v])"
  by (simp add: setitem_int32_def place_def upd_conv_take_nth_drop)

lemma place_zip:
  "length xs = length ys \<Longrightarrow> lo + length xs \<le> length a \<Longrightarrow>
   zip (place (map fst a) lo xs) (place (map snd a) lo ys) = place a lo (zip xs ys)"
  by (simp add: place_def take_map drop_map zip_map_fst_snd zip_append)

lemma setslice_cols:
  assumes "length xs = length ys" "hi = lo + length xs" "hi \<le> length a"
  shows "and_then (setslice_col0 a lo hi xs) (\<lambda>c0. and_then (setslice_col1 c0 lo hi ys) f)
         = f (place a lo (zip xs ys))"
proof -
  have l: "length (place (map fst a) lo xs) = length a"
    using assms by (simp add: length_place)
  have 0: "setslice_col0 a lo hi xs = Inr (zip (place (map fst a) lo xs) (map snd a))"
    using assms by (simp add: setslice_col0_def setslice_place and_then_def)
  have m: "map snd (zip (place (map fst a) lo xs) (map snd a)) = map snd a"
       "map fst (zip (place (map fst a) lo xs) (map snd a)) = place (map fst a) lo xs"
    using l by simp_all
  have 1: "setslice_col1 (zip (place (map fst a) lo xs) (map snd a)) lo hi ys
           = Inr (place a lo (zip xs ys))"
    using assms l by (simp add: setslice_col1_def m setslice_place and_then_def place_zip)
  show ?thesis by (simp add: 0 1 and_then_def)
qed

lemmas trip_defs = trip_coords_def trip_timestamps_def trip_speeds_def trip_edges_def
  trip_positions_def trip_relative_speeds_def trip_angles_def

lemma length_trip [simp]:
  "length (trip_coords f32 g) = length g"
  "length (trip_timestamps f32 g) = length g"
  "length (trip_speeds f32 cols g) = length g"
  "length (trip_edges str_e cols g) = length g"
  "length (trip_positions f32 cols g) = length g"
  "length (trip_relative_speeds f32 cols g) = length g"
  "length (trip_angles f32 cols g) = length g"
  by (simp_all add: trip_defs)

lemma loop_body_step:
  assumes "''vehicle_x'' \<in> set cols" "''vehicle_y'' \<in> set cols"
    and "fits n s" "current_offset s + length (snd vg) \<le> n"
    and "Suc i < length (offsets s)"
    and "current_offset s + length (snd vg) \<le> 2147483647"
  shows "loop_body f32 str_v str_e cols i vg s = Inr (step f32 str_v str_e cols i vg s)"
proof -
  have c: "\<And>f. and_then (setslice_col0 (coords s) (current_offset s)
               (current_offset s + length (snd vg)) (map (\<lambda>r. f32 (vehicle_x r)) (snd vg)))
             (\<lambda>c0. and_then (setslice_col1 c0 (current_offset s)
               (current_offset s + length (snd vg)) (map (\<lambda>r. f32 (vehicle_y r)) (snd vg))) f)
           = f (place (coords s) (current_offset s) (trip_coords f32 (snd vg)))"
    unfolding trip_coords_def using assms(3,4) by (intro setslice_cols) (simp_all add: fits_def)
  show ?thesis
    unfolding loop_body_def Let_def
    using assms
    apply (simp only: c if_True simp_thms)
    apply (simp add: fits_def setslice_place fillslice_place setitem_place and_then_def step_def
        trip_defs)
    done
qed

lemma length_sums [simp]: "length (running c ns) = length ns"
  by (induction ns arbitrary: c) simp_all

lemma total_simps [simp]: "total [] = 0" "total (g # gs) = length (snd g) + total gs"
  by (simp_all add: total_def)

lemma length_concat_trip [simp]:
  "length (concat (map (\<lambda>g. trip_coords f32 (snd g)) gs)) = total gs"
  "length (concat (map (\<lambda>g. trip_timestamps f32 (snd g)) gs)) = total gs"
  "length (concat (map (\<lambda>g. trip_speeds f32 cols (snd g)) gs)) = total gs"
  "length (concat (map (\<lambda>g. trip_edges str_e cols (snd g)) gs)) = total gs"
  "length (concat (map (\<lambda>g. trip_positions f32 cols (snd g)) gs)) = total gs"
  "length (concat (map (\<lambda>g. trip_relative_speeds f32 cols (snd g)) gs)) = total gs"
  "length (concat (map (\<lambda>g. trip_angles f32 cols (snd g)) gs)) = total gs"
  by (induction gs) simp_all

lemma after_loop_Nil: "after_loop f32 str_v str_e cols i [] s = s"
  by (simp add: after_loop_def place_Nil)

lemma fits_step:
  "fits n s \<Longrightarrow> current_offset s + length (snd vg) \<le> n \<Longrightarrow>
   fits n (step f32 str_v str_e cols i vg s)"
  by (simp add: fits_def step_def length_place)

lemma after_loop_Cons:
  assumes "fits n s" "current_offset s + total (vg # gs) \<le> n"
    and "Suc i + length gs < length (offsets s)"
  shows "after_loop f32 str_v str_e cols (Suc i) gs (step f32 str_v str_e cols i vg s)
         = after_loop f32 str_v str_e cols i (vg # gs) s"
  using assms
  by (simp add: after_loop_def step_def fits_def place_place add.assoc)

lemma loop_after_loop:
  assumes "''vehicle_x'' \<in> set cols" "''vehicle_y'' \<in> set cols"
  shows "fits n s \<Longrightarrow> current_offset s + total gs \<le> n \<Longrightarrow>
    i + length gs < length (offsets s) \<Longrightarrow> current_offset s + total gs \<le> 2147483647 \<Longrightarrow>
    loop f32 str_v str_e cols i gs s = Inr (after_loop f32 str_v str_e cols i gs s)"
proof (induction gs arbitrary: i s)
  case Nil
  show ?case by (simp add: after_loop_Nil)
next
  case (Cons vg gs)
  let ?s = "step f32 str_v str_e cols i vg s"
  have b: "loop_body f32 str_v str_e cols i vg s = Inr ?s"
    using Cons.prems assms by (intro loop_body_step[where n = n]) simp_all
  have f: "fits n ?s" using Cons.prems by (intro fits_step) simp_all
  have c: "current_offset ?s = current_offset s + length (snd vg)"
    and o: "length (offsets ?s) = length (offsets s)"
    using Cons.prems by (simp_all add: step_def length_place)
  have "loop f32 str_v str_e cols (Suc i) gs ?s = Inr (after_loop f32 str_v str_e cols (Suc i) gs ?s)"
    using Cons.prems f by (intro Cons.IH) (simp_all add: c o)
  also have "after_loop f32 str_v str_e cols (Suc i) gs ?s = after_loop f32 str_v str_e cols i (vg # gs) s"
    using Cons.prems by (intro after_loop_Cons[where n = n]) simp_all
  finally show ?case by (simp add: b and_then_def)
qed

lemma loop_body_KeyError:
  assumes "''vehicle_x'' \<notin> set cols \<or> ''vehicle_y'' \<notin> set cols"
    and "fits n s" "current_offset s + length (snd vg) \<le> n"
  shows "loop_body f32 str_v str_e cols i vg s = Inl KeyError"
proof (cases "''vehicle_x'' \<in> set cols")
  case False
  then show ?thesis by (simp add: loop_body_def and_then_def Let_def)
next
  case True
  then have y: "''vehicle_y'' \<notin> set cols" using assms(1) by simp
  have "\<exists>c0. setslice_col0 (coords s) (current_offset s) (current_offset s + length (snd vg))
            (map (\<lambda>r. f32 (vehicle_x r)) (snd vg)) = Inr c0"
    using assms(2,3) by (simp add: setslice_col0_def setslice_place and_then_def fits_def)
  then show ?thesis
    using True y by (auto simp: loop_body_def and_then_def Let_def)
qed

lemma loop_KeyError:
  assumes "''vehicle_x'' \<notin> set cols \<or> ''vehicle_y'' \<notin> set cols" and "gs \<noteq> []"
    and "fits n s" "current_offset s + total gs \<le> n"
  shows "loop f32 str_v str_e cols i gs s = Inl KeyError"
proof (cases gs)
  case Nil
  then show ?thesis using assms(2) by simp
next
  case (Cons vg gs')
  have "loop_body f32 str_v str_e cols i vg s = Inl KeyError"
    using assms Cons by (intro loop_body_KeyError[where n = n]) simp_all
  then show ?thesis using Cons by (simp add: and_then_def)
qed

lemma loop_body_overflow:
  assumes "''vehicle_x'' \<in> set cols" "''vehicle_y'' \<in> set cols"
    and "fits n s" "current_offset s + length (snd vg) \<le> n"
    and "Suc i < length (offsets s)"
    and "2147483647 < current_offset s + length (snd vg)"
  shows "loop_body f32 str_v str_e cols i vg s = Inl OverflowError"
proof -
  have c: "\<And>f. and_then (setslice_col0 (coords s) (current_offset s)
               (current_offset s + length (snd vg)) (map (\<lambda>r. f32 (vehicle_x r)) (snd vg)))
             (\<lambda>c0. and_then (setslice_col1 c0 (current_offset s)
               (current_offset s + length (snd vg)) (map (\<lambda>r. f32 (vehicle_y r)) (snd vg))) f)
           = f (place (coords s) (current_offset s) (trip_coords f32 (snd vg)))"
    unfolding trip_coords_def using assms(3,4) by (intro setslice_cols) (simp_all add: fits_def)
  show ?thesis
    unfolding loop_body_def Let_def
    using assms
    apply (simp only: c if_True simp_thms)
    apply (simp add: fits_def setslice_place fillslice_place setitem_int32_def and_then_def)
    done
qed

lemma loop_overflow:
  assumes "''vehicle_x'' \<in> set cols" "''vehicle_y'' \<in> set cols"
  shows "fits n s \<Longrightarrow> current_offset s + total gs \<le> n \<Longrightarrow>
    i + length gs < length (offsets s) \<Longrightarrow> current_offset s \<le> 2147483647 \<Longrightarrow>
    2147483647 < current_offset s + total gs \<Longrightarrow>
    loop f32 str_v str_e cols i gs s = Inl OverflowError"
proof (induction gs arbitrary: i s)
  case Nil
  then show ?case by simp
next
  case (Cons vg gs)
  let ?s = "step f32 str_v str_e cols i vg s"
  show ?case
  proof (cases "2147483647 < current_offset s + length (snd vg)")
    case True
    have "loop_body f32 str_v str_e cols i vg s = Inl OverflowError"
      using Cons.prems assms True by (intro loop_body_overflow[where n = n]) simp_all
    then show ?thesis by (simp add: and_then_def)
  next
    case False
    have b: "loop_body f32 str_v str_e cols i vg s = Inr ?s"
      using Cons.prems assms False by (intro loop_body_step[where n = n]) simp_all
    have f: "fits n ?s" using Cons.prems by (intro fits_step) simp_all
    have c: "current_offset ?s = current_offset s + length (snd vg)"
      and o: "length (offsets ?s) = length (offsets s)"
      using Cons.prems by (simp_all add: step_def length_place)
    have "loop f32 str_v str_e cols (Suc i) gs ?s = Inl OverflowError"
      using Cons.prems f False by (intro Cons.IH) (simp_all add: c o)
    then show ?thesis by (simp add: b and_then_def)
  qed
qed

subsection \<open>Grouping\<close>

lemma set_unique [simp]: "set (unique xs) = set xs"
  by (induction xs rule: unique.induct) auto

lemma distinct_unique [simp]: "distinct (unique xs)"
  by (induction xs rule: unique.induct) auto

lemma unique_Nil_iff [simp]: "unique xs = [] \<longleftrightarrow> xs = []"
  by (cases xs) simp_all

lemma sum_list_indicator:
  "distinct ks \<Longrightarrow> sum_list (map (\<lambda>k. if y = k then 1 else 0) ks) = (if y \<in> set ks then 1 else (0::nat))"
  by (induction ks) auto

lemma sum_length_filter_keys:
  "distinct ks \<Longrightarrow> f ` set xs \<subseteq> set ks \<Longrightarrow>
   sum_list (map (\<lambda>k. length (filter (\<lambda>x. f x = k) xs)) ks) = length xs"
proof (induction xs)
  case Nil
  then show ?case by simp
next
  case (Cons x xs)
  have "sum_list (map (\<lambda>k. length (filter (\<lambda>x. f x = k) (x # xs))) ks)
      = sum_list (map (\<lambda>k. (if f x = k then 1 else 0) + length (filter (\<lambda>x. f x = k) xs)) ks)"
    by (intro arg_cong[where f = sum_list] map_cong) auto
  also have "\<dots> = sum_list (map (\<lambda>k. if f x = k then 1 else 0) ks)
                 + sum_list (map (\<lambda>k. length (filter (\<lambda>x. f x = k) xs)) ks)"
    by (simp add: sum_list_addf)
  also have "\<dots> = 1 + length xs"
    using Cons by (simp add: sum_list_indicator)
  finally show ?case by simp
qed

lemma map_fst_grouped: "map fst (grouped rs) = sort (unique (map vehicle_id rs))"
  by (simp add: grouped_def comp_def)


lemma total_grouped: "total (grouped rs) = length rs"
  unfolding total_def grouped_def
  by (simp add: comp_def sum_length_filter_keys)

lemma grouped_Nil_iff: "grouped rs = [] \<longleftrightarrow> rs = []"
proof -
  have "length (grouped rs) = length (unique (map vehicle_id rs))"
    by (simp add: grouped_def)
  then have "grouped rs = [] \<longleftrightarrow> unique (map vehicle_id rs) = []"
    by (metis length_0_conv)
  then show ?thesis by simp
qed

lemma fits_init: "fits cn (init_arrays gn cn)"
  by (simp add: fits_def init_arrays_def)

lemma after_loop_init:
  "length gs = gn \<Longrightarrow> total gs = cn \<Longrightarrow>
   after_loop f32 str_v str_e cols 0 gs (init_arrays gn cn) = packed f32 str_v str_e cols gs"
  by (simp add: after_loop_def packed_def init_arrays_def place_all) (simp add: place_def)

lemma flatten_eq:
  "flatten f32 str_v str_e cols rs =
     (if rs \<noteq> [] \<and> (''vehicle_x'' \<notin> set cols \<or> ''vehicle_y'' \<notin> set cols) then Inl KeyError
      else if 2147483647 < length rs then Inl OverflowError
      else Inr (packed f32 str_v str_e cols (grouped rs)))"
proof -
  let ?gs = "grouped rs"
  let ?s = "init_arrays (length ?gs) (length rs)"
  have i: "fits (length rs) ?s" "current_offset ?s = 0" "length (offsets ?s) = length ?gs + 1"
    by (simp_all add: fits_init) (simp_all add: init_arrays_def)
  show ?thesis
  proof (cases "rs = []")
    case True
    then show ?thesis
      by (simp add: flatten_def grouped_def packed_def init_arrays_def)
  next
    case rs: False
    show ?thesis
    proof (cases "''vehicle_x'' \<notin> set cols \<or> ''vehicle_y'' \<notin> set cols")
      case True
      then show ?thesis
        using rs i
        by (simp add: flatten_def grouped_Nil_iff total_grouped
            loop_KeyError[where n = "length rs"])
    next
      case False
      then have xy: "''vehicle_x'' \<in> set cols" "''vehicle_y'' \<in> set cols" by simp_all
      show ?thesis
      proof (cases "2147483647 < length rs")
        case True
        have "loop f32 str_v str_e cols 0 ?gs ?s = Inl OverflowError"
          using i True by (intro loop_overflow[OF xy, where n = "length rs"]) (simp_all add: total_grouped)
        then show ?thesis using xy True by (simp add: flatten_def)
      next
        case False
        have "loop f32 str_v str_e cols 0 ?gs ?s = Inr (after_loop f32 str_v str_e cols 0 ?gs ?s)"
          using i False by (intro loop_after_loop[OF xy, where n = "length rs"]) (simp_all add: total_grouped)
        then show ?thesis using xy False
          by (simp add: flatten_def after_loop_init total_grouped)
      qed
    qed
  qed
qed

subsection \<open>Offsets and slices\<close>





lemma flatten_Inr:
  "flatten f32 str_v str_e cols rs = Inr fl \<Longrightarrow> fl = packed f32 str_v str_e cols (grouped rs)"
  by (simp add: flatten_eq split: if_splits)

lemma sample_rows_empty:
  "sample_rows rng N [] = Inl ValueError \<or> sample_rows rng N [] = Inr []"
  by (cases N) (auto simp: sample_rows_def choice_def and_then_def Let_def)



lemma nth_running: "i \<le> length ns \<Longrightarrow> (c # running c ns) ! i = c + sum_list (take i ns)"
proof (induction ns arbitrary: c i)
  case Nil
  then show ?case by simp
next
  case (Cons n ns)
  then show ?case by (cases i) (simp_all add: add.assoc)
qed

lemma trip_slice_concat:
  assumes "i < length xss"
  shows "trip_slice (0 # running 0 (map length xss)) (concat xss) i = xss ! i"
proof -
  let ?offs = "0 # running 0 (map length xss)"
  have a0: "?offs ! i = 0 + sum_list (take i (map length xss))"
    using assms by (intro nth_running) simp
  have b0: "?offs ! Suc i = 0 + sum_list (take (Suc i) (map length xss))"
    using assms by (intro nth_running) simp
  have a: "?offs ! i = length (concat (take i xss))"
    unfolding a0 by (simp add: length_concat take_map)
  have b: "?offs ! Suc i = length (concat (take i xss)) + length (xss ! i)"
    unfolding b0 using assms by (simp add: length_concat take_map take_Suc_conv_app_nth)
  have c: "concat xss = concat (take i xss) @ xss ! i @ concat (drop (Suc i) xss)"
    using assms by (metis append_take_drop_id concat_append concat.simps(2) Cons_nth_drop_Suc)
  have "drop (length (concat (take i xss))) (concat xss) = xss ! i @ concat (drop (Suc i) xss)"
    by (subst c) simp
  then show ?thesis
    unfolding trip_slice_def a b by simp
qed

lemma trip_slice_packed:
  assumes "\<And>g. length (h g) = length (snd g)" and "i < length gs"
  shows "trip_slice (0 # running 0 (map (\<lambda>g. length (snd g)) gs)) (concat (map h gs)) i
         = h (gs ! i)"
proof -
  have e: "map (\<lambda>g. length (snd g)) gs = map length (map h gs)"
    using assms(1) by simp
  have "trip_slice (0 # running 0 (map length (map h gs))) (concat (map h gs)) i = map h gs ! i"
    using assms(2) by (intro trip_slice_concat) simp
  then show ?thesis
    unfolding e using assms(2) by simp
qed


lemma nth_grouped:
  "i < length (grouped rs) \<Longrightarrow>
   snd (grouped rs ! i) = filter (\<lambda>r. vehicle_id r = fst (grouped rs ! i)) rs"
  by (simp add: grouped_def)

lemma concat_replicate:
  "concat (map (\<lambda>g. replicate (length (snd g)) c) gs) = replicate (total gs) c"
  by (induction gs) (simp_all add: replicate_add)

subsection \<open>Sampling\<close>

lemma permutation_of_length: "permutation_of n p \<Longrightarrow> length p = n"
  using distinct_card[of p] by (simp add: permutation_of_def)

lemma choice_ok:
  assumes "permutation_of (length a) (rng (length a))" "0 \<le> k" "k \<le> int (length a)"
  shows "choice rng a k = Inr (map (\<lambda>i. a ! i) (take (nat k) (rng (length a))))"
proof -
  have "\<forall>i \<in> set (take (nat k) (rng (length a))). i < length a"
    using assms(1) by (auto simp: permutation_of_def dest!: in_set_takeD)
  then show ?thesis
    using assms(2,3) by (auto simp: choice_def Let_def)
qed

lemma length_unique_card: "length (unique xs) = card (set xs)"
  using distinct_card[OF distinct_unique, of xs] by simp

lemma set_map_nth_perm:
  "permutation_of (length a) p \<Longrightarrow> set (map (\<lambda>i. a ! i) p) = set a"
  using nth_image[of "length a" a] by (simp add: permutation_of_def)

lemma set_map_nth_subset:
  "\<forall>i \<in> set idx. i < length a \<Longrightarrow> set (map (\<lambda>i. a ! i) idx) \<subseteq> set a"
  by auto

lemma sample_all:
  assumes "\<And>n. permutation_of n (rng n)" and "int (card (vehicle_id ` set rs)) \<le> N"
  shows "sample_rows rng (Some N) rs = Inr rs"
proof -
  let ?u = "unique (map vehicle_id rs)"
  have n: "length ?u = card (vehicle_id ` set rs)" by (simp add: length_unique_card)
  have k: "min N (int (length ?u)) = int (length ?u)" using assms(2) n by simp
  have p: "permutation_of (length ?u) (rng (length ?u))" by (rule assms(1))
  have c: "choice rng ?u (int (length ?u)) = Inr (map (\<lambda>i. ?u ! i) (rng (length ?u)))"
    using choice_ok[where a = ?u and rng = rng and k = "int (length ?u)"] p
      permutation_of_length[OF p] by simp
  have "set (map (\<lambda>i. ?u ! i) (rng (length ?u))) = set ?u"
    using p by (rule set_map_nth_perm)
  then have s: "set (map (\<lambda>i. ?u ! i) (rng (length ?u))) = vehicle_id ` set rs" by simp
  have "filter (\<lambda>r. vehicle_id r \<in> set (map (\<lambda>i. ?u ! i) (rng (length ?u)))) rs = rs"
    unfolding s by simp
  then show ?thesis
    by (simp add: sample_rows_def Let_def k c and_then_def)
qed

lemma sample_some:
  assumes "\<And>n. permutation_of n (rng n)" and "0 \<le> N" and "N < int (card (vehicle_id ` set rs))"
  shows "\<exists>S. sample_rows rng (Some N) rs = Inr (filter (\<lambda>r. vehicle_id r \<in> S) rs)
           \<and> S \<subseteq> vehicle_id ` set rs \<and> int (card S) = N"
proof -
  let ?u = "unique (map vehicle_id rs)"
  let ?idx = "take (nat N) (rng (length ?u))"
  let ?s = "map (\<lambda>i. ?u ! i) ?idx"
  have n: "length ?u = card (vehicle_id ` set rs)" by (simp add: length_unique_card)
  have k: "min N (int (length ?u)) = N" using assms(3) n by simp
  have p: "permutation_of (length ?u) (rng (length ?u))" by (rule assms(1))
  have c: "choice rng ?u N = Inr ?s"
    using choice_ok[where a = ?u and rng = rng and k = N] p assms(2,3) n by simp
  have lt: "\<forall>i \<in> set ?idx. i < length ?u"
    using p by (auto simp: permutation_of_def dest!: in_set_takeD)
  have di: "distinct ?idx" using p by (simp add: permutation_of_def)
  have li: "length ?idx = nat N"
    using permutation_of_length[OF p] assms(2,3) n by simp
  have "inj_on (\<lambda>i. ?u ! i) (set ?idx)"
    by (rule inj_on_nth[OF distinct_unique lt])
  then have ds: "distinct ?s" using di by (simp add: distinct_map)
  have "card (set ?s) = nat N" using distinct_card[OF ds] li by simp
  then have cs: "int (card (set ?s)) = N" using assms(2) by simp
  have "set ?s \<subseteq> set ?u" using lt by (rule set_map_nth_subset)
  then have ss: "set ?s \<subseteq> vehicle_id ` set rs" by simp
  have "sample_rows rng (Some N) rs = Inr (filter (\<lambda>r. vehicle_id r \<in> set ?s) rs)"
    by (simp add: sample_rows_def Let_def k c and_then_def)
  then show ?thesis using ss cs by blast
qed

lemma image_filter_keys:
  "S \<subseteq> f ` set xs \<Longrightarrow> f ` set (filter (\<lambda>x. f x \<in> S) xs) = S"
  by auto

lemma filter_filter_key:
  "k \<in> S \<Longrightarrow> filter (\<lambda>x. f x = k) (filter (\<lambda>x. f x \<in> S) xs) = filter (\<lambda>x. f x = k) xs"
  by (induction xs) auto

lemma required_flatten:
  "flatten f32 str_v str_e required_cols example_rows
     = Inr (packed f32 str_v str_e required_cols (grouped example_rows))"
  by (simp add: flatten_eq) (simp add: required_cols_def example_rows_def)

subsection \<open>Sorting\<close>

lemma sample_rows_filter:
  "sample_rows rng N xs = Inr rs \<Longrightarrow> \<exists>P. rs = filter P xs"
proof (cases N)
  case None
  assume "sample_rows rng N xs = Inr rs"
  with None have "rs = filter (\<lambda>_. True) xs" by (simp add: sample_rows_def)
  then show ?thesis by blast
next
  case (Some n)
  assume "sample_rows rng N xs = Inr rs"
  with Some show ?thesis
    by (auto simp: sample_rows_def and_then_def Let_def split: sum.splits)
qed

lemma sorted_sort_values:
  "sorted (map (\<lambda>r. (vehicle_id r, timestep_time r)) (sort_values xs))"
  by (simp add: sort_values_def)

lemma sorted_group_times:
  assumes "sorted (map (\<lambda>r. (vehicle_id r, timestep_time r)) rs)"
  shows "sorted (map timestep_time (filter (\<lambda>r. vehicle_id r = k) rs))"
proof -
  let ?g = "filter (\<lambda>r. vehicle_id r = k) rs"
  have "sorted (map (\<lambda>r. (vehicle_id r, timestep_time r)) ?g)"
    using assms by (rule sorted_filter)
  then have "sorted_wrt (\<lambda>x y. (vehicle_id x, timestep_time x) \<le> (vehicle_id y, timestep_time y)) ?g"
    by (simp add: sorted_map)
  then have "sorted_wrt (\<lambda>x y. timestep_time x \<le> timestep_time y) ?g"
    by (rule sorted_wrt_mono_rel[rotated]) (auto simp: less_eq_prod_def)
  then show ?thesis by (simp add: sorted_map)
qed

lemma sorted_map_mono: "mono f \<Longrightarrow> sorted xs \<Longrightarrow> sorted (map f xs)"
  by (induction xs) (auto simp: mono_def)

lemma example_retained:
  "retained_rows None rng example_frame = Inr example_sorted"
  by (simp add: retained_rows_def sample_rows_def example_frame_def example_cols_def
      time_filter_def sort_values_def example_rows_def example_row_def example_sorted_def)

subsection \<open>The table\<close>

lemma length_flatten_C: "length (flatten_C cs) = 2 * length cs"
  by (induction cs) (simp_all add: flatten_C_def)

lemma assemble_eq:
  assumes "offsets a \<noteq> []" "edges a \<noteq> []" "vehicle_ids a \<noteq> []"
    and "length (vehicle_ids a) = length (offsets a) - 1"
  shows "assemble a = Inr
     [(''geometry'', ListArray (offsets a) (FixedSizeListArray (FloatArray (flatten_C (coords a))) 2)),
      (''timestamps'', ListArray (offsets a) (FloatArray (timestamps a))),
      (''speeds'', ListArray (offsets a) (FloatArray (speeds a))),
      (''edges'', ListArray (offsets a) (StringArray (edges a))),
      (''positions'', ListArray (offsets a) (FloatArray (positions a))),
      (''relative_speeds'', ListArray (offsets a) (FloatArray (relative_speeds a))),
      (''angles'', ListArray (offsets a) (FloatArray (angles a))),
      (''vehicle_id'', StringArray (vehicle_ids a))]"
  using assms
  by (simp add: assemble_def FixedSizeListArray_from_arrays_def ListArray_from_arrays_def
      pa_array_str_def pa_table_def and_then_def length_flatten_C)


lemma sort_unique: "sort (unique xs) = sorted_list_of_set (set xs)"
proof -
  have "sorted_list_of_set (set (sort (unique xs))) = sort (unique xs)"
    by (intro sorted_list_of_set.idem_if_sorted_distinct) simp_all
  then show ?thesis by simp
qed

lemma int_retained:
  "retained_rows None rng int_frame = Inr [int_row 2 25400, int_row 10 25300]"
  by (simp add: retained_rows_def sample_rows_def int_frame_def example_cols_def
      time_filter_def sort_values_def int_row_def)

lemma int_grouped:
  "grouped [int_row 2 25400, int_row 10 25300]
     = [(2, [int_row 2 25400]), (10, [int_row 10 25300])]"
  by (simp add: grouped_def int_row_def)

lemma str_int_values: "str_int 2 = ''2''" "str_int 10 = ''10''"
  by code_simp+



lemma example_sorted_grouped:
  "grouped example_sorted =
     [(1, [example_row 1 25201, example_row 1 25202]),
      (2, [example_row 2 25201, example_row 2 25250, example_row 2 25300]),
      (3, [example_row 3 25250])]"
  by (simp add: grouped_def example_sorted_def example_row_def)

lemma example_sorted_flatten:
  "flatten f32 str_v str_e example_cols example_sorted
     = Inr (packed f32 str_v str_e example_cols (grouped example_sorted))"
  by (simp add: flatten_eq) (simp add: example_cols_def example_sorted_def)

lemma named_flatten:
  "flatten f32 str_v str_e example_cols named_rows
     = Inr (packed f32 str_v str_e example_cols (grouped named_rows))"
  by (simp add: flatten_eq) (simp add: example_cols_def named_rows_def)

subsection \<open>Counting the draws\<close>

lemma permutation_of_map:
  assumes "bij_betw f {0..<n} {0..<n}" and "permutation_of n p"
  shows "permutation_of n (map f p)"
proof -
  have "inj_on f (set p)" using assms by (simp add: permutation_of_def bij_betw_def)
  moreover have "f ` set p = {0..<n}" using assms by (simp add: permutation_of_def bij_betw_def)
  ultimately show ?thesis using assms(2) by (simp add: permutation_of_def distinct_map)
qed

lemma ex_index_bij:
  assumes "I \<subseteq> {0..<n::nat}" "J \<subseteq> {0..<n}" "card I = card J"
  shows "\<exists>f. bij_betw f {0..<n} {0..<n} \<and> f ` I = J"
proof -
  have "finite I" using assms(1) by (rule finite_subset) simp
  moreover have "finite J" using assms(2) by (rule finite_subset) simp
  ultimately have fin: "finite I" "finite J" by blast+
  obtain g where g: "bij_betw g I J"
    using finite_same_card_bij[OF fin assms(3)] by blast
  have "card ({0..<n} - I) = card ({0..<n} - J)"
    using assms fin by (simp add: card_Diff_subset)
  then obtain h where h: "bij_betw h ({0..<n} - I) ({0..<n} - J)"
    using finite_same_card_bij[of "{0..<n} - I" "{0..<n} - J"] by auto
  let ?f = "\<lambda>i. if i \<in> I then g i else h i"
  have 1: "bij_betw ?f I J" using g by (rule bij_betw_cong[THEN iffD2, rotated]) simp
  have 2: "bij_betw ?f ({0..<n} - I) ({0..<n} - J)"
    using h by (rule bij_betw_cong[THEN iffD2, rotated]) simp
  have "bij_betw ?f (I \<union> ({0..<n} - I)) (J \<union> ({0..<n} - J))"
    using 1 2 by (rule bij_betw_combine) auto
  moreover have "I \<union> ({0..<n} - I) = {0..<n}" "J \<union> ({0..<n} - J) = {0..<n}"
    using assms(1,2) by auto
  moreover have "?f ` I = J" using 1 by (simp add: bij_betw_def)
  ultimately show ?thesis by (intro exI[of _ ?f]) simp
qed

lemma draws_image:
  assumes "bij_betw f {0..<n} {0..<n}" "f ` I = J"
  shows "map f ` draws n k I \<subseteq> draws n k J"
proof
  fix q assume "q \<in> map f ` draws n k I"
  then obtain p where p: "permutation_of n p" "set (take k p) = I" and q: "q = map f p"
    by (auto simp: draws_def)
  have "set (take k q) = f ` set (take k p)" by (simp add: q take_map)
  then show "q \<in> draws n k J"
    using permutation_of_map[OF assms(1) p(1)] p(2) assms(2) by (simp add: draws_def q)
qed

lemma card_draws:
  assumes "I \<subseteq> {0..<n}" "J \<subseteq> {0..<n}" "card I = card J"
  shows "card (draws n k I) = card (draws n k J)"
proof -
  obtain f where f: "bij_betw f {0..<n} {0..<n}" "f ` I = J"
    using ex_index_bij[OF assms] by blast
  let ?g = "the_inv_into {0..<n} f"
  have g: "bij_betw ?g {0..<n} {0..<n}" using f(1) by (rule bij_betw_the_inv_into)
  have gf: "?g (f i) = i" if "i < n" for i
    using f(1) that by (simp add: the_inv_into_f_f bij_betw_def)
  have fg: "f (?g i) = i" if "i < n" for i
    using f(1) that by (simp add: f_the_inv_into_f bij_betw_def)
  have gJ: "?g ` J = I"
  proof -
    have "?g ` J = ?g ` f ` I" by (simp add: f(2))
    also have "\<dots> = I" using assms(1) gf by (force simp: image_image)
    finally show ?thesis .
  qed
  have "bij_betw (map f) (draws n k I) (draws n k J)"
  proof (rule bij_betw_byWitness[where f' = "map ?g"])
    show "\<forall>p \<in> draws n k I. map ?g (map f p) = p"
      using gf by (auto simp: draws_def permutation_of_def intro!: map_idI)
    show "\<forall>q \<in> draws n k J. map f (map ?g q) = q"
      using fg by (auto simp: draws_def permutation_of_def intro!: map_idI)
    show "map f ` draws n k I \<subseteq> draws n k J" using f by (rule draws_image)
    show "map ?g ` draws n k J \<subseteq> draws n k I" using g gJ by (rule draws_image)
  qed
  then show ?thesis by (rule bij_betw_same_card)
qed

lemma finite_draws: "finite (draws n k X)"
proof -
  have "draws n k X \<subseteq> {p. set p \<subseteq> {0..<n} \<and> length p = n}"
    by (auto simp: draws_def permutation_of_def dest: permutation_of_length[unfolded permutation_of_def])
       (metis atLeastLessThan_iff distinct_card card_atLeastLessThan diff_zero)
  then show ?thesis
    by (rule finite_subset) (simp add: finite_lists_length_eq)
qed

lemma draws_nonempty:
  assumes "I \<subseteq> {0..<n}" "card I = k"
  shows "draws n k I \<noteq> {}"
proof -
  have fI: "finite I" using assms(1) by (rule finite_subset) simp
  let ?p = "sorted_list_of_set I @ sorted_list_of_set ({0..<n} - I)"
  have "permutation_of n ?p"
    using assms(1) fI by (auto simp: permutation_of_def)
  moreover have "take k ?p = sorted_list_of_set I"
    using assms(2) fI by simp
  ultimately have "?p \<in> draws n k I"
    using fI by (simp add: draws_def)
  then show ?thesis by blast
qed

lemma positions_of_subset: "positions_of u S \<subseteq> {0..<length u}"
  by (auto simp: positions_of_def)

lemma nth_image_positions_of:
  assumes "S \<subseteq> set u"
  shows "(\<lambda>i. u ! i) ` positions_of u S = S"
proof (intro equalityI subsetI)
  fix x assume "x \<in> (\<lambda>i. u ! i) ` positions_of u S"
  then show "x \<in> S" by (auto simp: positions_of_def)
next
  fix x assume x: "x \<in> S"
  then have "x \<in> set u" using assms by blast
  then obtain i where "i < length u" "u ! i = x" by (auto simp: in_set_conv_nth)
  then have "i \<in> positions_of u S" using x by (simp add: positions_of_def)
  then show "x \<in> (\<lambda>i. u ! i) ` positions_of u S" using \<open>u ! i = x\<close> by blast
qed

lemma card_positions_of:
  assumes "distinct u" "S \<subseteq> set u"
  shows "card (positions_of u S) = card S"
proof -
  have "inj_on (\<lambda>i. u ! i) (positions_of u S)"
    using assms(1) by (intro inj_on_nth) (simp_all add: positions_of_def)
  then have "card ((\<lambda>i. u ! i) ` positions_of u S) = card (positions_of u S)"
    by (rule card_image)
  then show ?thesis using nth_image_positions_of[OF assms(2)] by simp
qed

lemma nth_image_eq_iff:
  assumes "distinct u" "S \<subseteq> set u" "X \<subseteq> {0..<length u}"
  shows "(\<lambda>i. u ! i) ` X = S \<longleftrightarrow> X = positions_of u S"
proof
  assume "X = positions_of u S"
  then show "(\<lambda>i. u ! i) ` X = S" using nth_image_positions_of[OF assms(2)] by simp
next
  assume e: "(\<lambda>i. u ! i) ` X = S"
  show "X = positions_of u S"
  proof (intro equalityI subsetI)
    fix i assume "i \<in> X"
    then show "i \<in> positions_of u S" using e assms(3) by (auto simp: positions_of_def)
  next
    fix i assume "i \<in> positions_of u S"
    then have i: "i < length u" "u ! i \<in> S" by (simp_all add: positions_of_def)
    then obtain j where j: "j \<in> X" "u ! j = u ! i" using e by auto
    then have "j < length u" using assms(3) by auto
    then have "j = i" using j(2) i(1) assms(1) by (simp add: nth_eq_iff_index_eq)
    then show "i \<in> X" using j(1) by simp
  qed
qed

lemma filter_keys_eq_iff:
  assumes "A \<subseteq> f ` set xs" "B \<subseteq> f ` set xs"
  shows "filter (\<lambda>x. f x \<in> A) xs = filter (\<lambda>x. f x \<in> B) xs \<longleftrightarrow> A = B"
proof
  assume "filter (\<lambda>x. f x \<in> A) xs = filter (\<lambda>x. f x \<in> B) xs"
  then have "f ` set (filter (\<lambda>x. f x \<in> A) xs) = f ` set (filter (\<lambda>x. f x \<in> B) xs)"
    by simp
  then show "A = B"
    unfolding image_filter_keys[OF assms(1)] image_filter_keys[OF assms(2)] .
qed simp

lemma sample_rows_draw:
  assumes "permutation_of (card (vehicle_id ` set rs)) p" "0 \<le> N"
    and "N \<le> int (card (vehicle_id ` set rs))"
  shows "sample_rows (\<lambda>_. p) (Some N) rs
    = Inr (filter (\<lambda>r. vehicle_id r \<in>
        (\<lambda>i. unique (map vehicle_id rs) ! i) ` set (take (nat N) p)) rs)"
proof -
  let ?u = "unique (map vehicle_id rs)"
  have n: "length ?u = card (vehicle_id ` set rs)" by (simp add: length_unique_card)
  have k: "min N (int (length ?u)) = N" using assms(3) n by simp
  have "choice (\<lambda>_. p) ?u N = Inr (map (\<lambda>i. ?u ! i) (take (nat N) p))"
    using choice_ok[where a = ?u and rng = "\<lambda>_. p" and k = N] assms n by simp
  then show ?thesis
    by (simp add: sample_rows_def Let_def k and_then_def)
qed

lemma sample_set_eq_draws:
  assumes "S \<subseteq> vehicle_id ` set rs" "0 \<le> N" "N \<le> int (card (vehicle_id ` set rs))"
  shows "{p. permutation_of (card (vehicle_id ` set rs)) p
            \<and> sample_rows (\<lambda>_. p) (Some N) rs = Inr (filter (\<lambda>r. vehicle_id r \<in> S) rs)}
         = draws (card (vehicle_id ` set rs)) (nat N)
             (positions_of (unique (map vehicle_id rs)) S)"
proof -
  let ?u = "unique (map vehicle_id rs)"
  let ?n = "card (vehicle_id ` set rs)"
  have n: "length ?u = ?n" by (simp add: length_unique_card)
  have S: "S \<subseteq> set ?u" using assms(1) by simp
  have "sample_rows (\<lambda>_. p) (Some N) rs = Inr (filter (\<lambda>r. vehicle_id r \<in> S) rs)
        \<longleftrightarrow> set (take (nat N) p) = positions_of ?u S"
    if p: "permutation_of ?n p" for p
  proof -
    let ?X = "set (take (nat N) p)"
    have X: "?X \<subseteq> {0..<length ?u}"
      using p n by (auto simp: permutation_of_def dest!: in_set_takeD)
    have "\<forall>i \<in> set (take (nat N) p). i < length ?u" using X by auto
    then have "set (map (\<lambda>i. ?u ! i) (take (nat N) p)) \<subseteq> set ?u"
      by (rule set_map_nth_subset)
    then have sub: "(\<lambda>i. ?u ! i) ` ?X \<subseteq> vehicle_id ` set rs"
      by simp
    have "sample_rows (\<lambda>_. p) (Some N) rs = Inr (filter (\<lambda>r. vehicle_id r \<in> S) rs)
        \<longleftrightarrow> (\<lambda>i. ?u ! i) ` ?X = S"
      unfolding sample_rows_draw[OF p assms(2,3)]
      using filter_keys_eq_iff[OF sub assms(1)] by simp
    also have "\<dots> \<longleftrightarrow> ?X = positions_of ?u S"
      by (rule nth_image_eq_iff[OF distinct_unique S X])
    finally show ?thesis .
  qed
  then show ?thesis by (auto simp: draws_def)
qed

lemma uniform_draw:
  assumes "S \<subseteq> vehicle_id ` set rs" "T \<subseteq> vehicle_id ` set rs" "card S = card T"
    and "0 \<le> N" "N \<le> int (card (vehicle_id ` set rs))"
  shows "card {p. permutation_of (card (vehicle_id ` set rs)) p
            \<and> sample_rows (\<lambda>_. p) (Some N) rs = Inr (filter (\<lambda>r. vehicle_id r \<in> S) rs)}
       = card {p. permutation_of (card (vehicle_id ` set rs)) p
            \<and> sample_rows (\<lambda>_. p) (Some N) rs = Inr (filter (\<lambda>r. vehicle_id r \<in> T) rs)}"
proof -
  let ?u = "unique (map vehicle_id rs)"
  have n: "length ?u = card (vehicle_id ` set rs)" by (simp add: length_unique_card)
  have "card (positions_of ?u S) = card (positions_of ?u T)"
    using assms(1,2,3) by (simp add: card_positions_of)
  then show ?thesis
    unfolding sample_set_eq_draws[OF assms(1,4,5)] sample_set_eq_draws[OF assms(2,4,5)]
    using positions_of_subset[of ?u S] positions_of_subset[of ?u T]
    by (intro card_draws) (simp_all add: n)
qed

lemma possible_draw:
  assumes "S \<subseteq> vehicle_id ` set rs" "int (card S) = N"
  shows "0 < card {p. permutation_of (card (vehicle_id ` set rs)) p
            \<and> sample_rows (\<lambda>_. p) (Some N) rs = Inr (filter (\<lambda>r. vehicle_id r \<in> S) rs)}"
proof -
  let ?u = "unique (map vehicle_id rs)"
  have n: "length ?u = card (vehicle_id ` set rs)" by (simp add: length_unique_card)
  have "card S \<le> card (vehicle_id ` set rs)"
    using assms(1) by (intro card_mono) simp_all
  then have N: "0 \<le> N" "N \<le> int (card (vehicle_id ` set rs))" using assms(2) by simp_all
  have c: "card (positions_of ?u S) = nat N"
    using assms by (simp add: card_positions_of)
  have "draws (card (vehicle_id ` set rs)) (nat N) (positions_of ?u S) \<noteq> {}"
    using positions_of_subset[of ?u S] c by (intro draws_nonempty) (simp_all add: n)
  then show ?thesis
    unfolding sample_set_eq_draws[OF assms(1) N]
    by (simp add: card_gt_0_iff finite_draws)
qed

subsection \<open>Dependence on the random source\<close>



section \<open>The claims\<close>



text \<open>
  C7. The filter keeps exactly the rows whose \<open>timestep_time\<close> is strictly between 25200
  and 26100, in their order; a row whose time is 25200 or 26100 is dropped.
\<close>

theorem time_filter_strict:
  "time_filter rs = filter (\<lambda>r. 25200 < timestep_time r \<and> timestep_time r < 26100) rs
   \<and> time_filter [r\<lparr>timestep_time := 25200\<rparr>] = []
   \<and> time_filter [r\<lparr>timestep_time := 26100\<rparr>] = []"
proof -
  have "time_filter rs = filter (\<lambda>r. 25200 < timestep_time r \<and> timestep_time r < 26100) rs"
    unfolding time_filter_def by (intro filter_cong) auto
  then show ?thesis by (simp add: time_filter_def)
qed



text \<open>
  C1. When the time window keeps no row, the script does not succeed: whatever the sample
  count and the random draw, it raises \<open>ValueError\<close> (from \<open>timestamps.min()\<close> on an empty
  array, or from a negative sample count) before any table is built.
\<close>

theorem empty_window_raises:
  assumes "''timestep_time'' \<in> set (columns df)" "''vehicle_id'' \<in> set (columns df)"
    and "time_filter (rows df) = []"
  shows "main f32 str_v str_e SAMPLE_VEHICLES rng df = Inl ValueError"
proof -
  have r: "retained_rows SAMPLE_VEHICLES rng df = sample_rows rng SAMPLE_VEHICLES []"
    using assms by (simp add: retained_rows_def sort_values_def)
  have f: "flatten f32 str_v str_e (columns df) [] = Inr (packed f32 str_v str_e (columns df) [])"
    by (simp add: flatten_eq grouped_def)
  have t: "timestamps (packed f32 str_v str_e (columns df) []) = []"
    by (simp add: packed_def)
  have "retained_rows SAMPLE_VEHICLES rng df = Inl ValueError
      \<or> retained_rows SAMPLE_VEHICLES rng df = Inr []"
    unfolding r by (rule sample_rows_empty)
  then show ?thesis
    by (auto simp: main_def and_then_def f t np_min_def)
qed

theorem empty_window_raises_witness:
  "''timestep_time'' \<in> set (columns outside_frame) \<and> ''vehicle_id'' \<in> set (columns outside_frame)
   \<and> time_filter (rows outside_frame) = []
   \<and> main (\<lambda>x. x) str_nat str_nat (Some 100) (\<lambda>n. rev [0..<n]) outside_frame = Inl ValueError"
proof -
  have c: "''timestep_time'' \<in> set (columns outside_frame)"
      "''vehicle_id'' \<in> set (columns outside_frame)"
    by (simp_all add: outside_frame_def example_cols_def)
  have t: "time_filter (rows outside_frame) = []"
    by (simp add: outside_frame_def time_filter_def example_row_def)
  show ?thesis
    using c t empty_window_raises [OF c t, of "\<lambda>x. x" str_nat str_nat "Some 100" "\<lambda>n. rev [0..<n]"]
    by simp
qed



text \<open>
  C6. When an optional column is absent from the frame, every entry of the corresponding
  output column is the default: 0 for speed, position and angle, the empty string for the
  edge, 1 for the relative speed (the narrowing to \<open>float32\<close> leaves 0 and 1 unchanged).
\<close>

theorem absent_columns_default:
  assumes "flatten f32 str_v str_e cols rs = Inr fl" and "f32 0 = 0" and "f32 1 = 1"
  shows "(''vehicle_speed'' \<notin> set cols \<longrightarrow> speeds fl = replicate (length rs) 0)
       \<and> (''vehicle_edge'' \<notin> set cols \<longrightarrow> edges fl = replicate (length rs) '''')
       \<and> (''vehicle_pos'' \<notin> set cols \<longrightarrow> positions fl = replicate (length rs) 0)
       \<and> (''vehicle_speedRelative'' \<notin> set cols \<longrightarrow> relative_speeds fl = replicate (length rs) 1)
       \<and> (''vehicle_angle'' \<notin> set cols \<longrightarrow> angles fl = replicate (length rs) 0)"
proof -
  have fl: "fl = packed f32 str_v str_e cols (grouped rs)"
    using assms(1) by (rule flatten_Inr)
  show ?thesis
    using assms(2,3)
    by (simp add: fl packed_def trip_defs concat_replicate total_grouped)
qed

theorem absent_columns_default_witness:
  "\<exists>fl. flatten (\<lambda>x. x) str_nat str_nat required_cols example_rows = Inr fl
      \<and> ''vehicle_speed'' \<notin> set required_cols \<and> ''vehicle_edge'' \<notin> set required_cols
      \<and> ''vehicle_pos'' \<notin> set required_cols \<and> ''vehicle_speedRelative'' \<notin> set required_cols
      \<and> ''vehicle_angle'' \<notin> set required_cols
      \<and> speeds fl = [0, 0, 0, 0, 0, 0]
      \<and> edges fl = replicate 6 ''''
      \<and> positions fl = [0, 0, 0, 0, 0, 0]
      \<and> relative_speeds fl = [1, 1, 1, 1, 1, 1]
      \<and> angles fl = [0, 0, 0, 0, 0, 0]"
proof -
  have n: "length example_rows = 6" by (simp add: example_rows_def)
  have r: "replicate 6 x = [x, x, x, x, x, x]" for x :: 'a
    by (simp add: numeral_eq_Suc)
  note h = required_flatten [of "\<lambda>x. x" str_nat str_nat]
  show ?thesis
    using absent_columns_default [OF h] h
    by (intro exI[of _ "packed (\<lambda>x. x) str_nat str_nat required_cols (grouped example_rows)"])
       (simp add: n r required_cols_def)
qed

text \<open>
  C5. Let the generator return a permutation of the indices. With a sample count \<open>N\<close> of
  at least the number of distinct vehicles, sampling keeps every row. With
  \<open>0 \<le> N\<close> below that number, it keeps exactly \<open>N\<close> distinct vehicles, all from the frame,
  and every row of each vehicle it keeps, in order. The draw favours no vehicle: any set
  of \<open>N\<close> vehicles of the frame is selected by some permutation, and any two such sets are
  selected by equally many permutations, so that a generator drawing permutations uniformly
  draws the sets of \<open>N\<close> vehicles uniformly.
\<close>

theorem sampling_keeps_whole_vehicles:
  assumes "\<And>n. permutation_of n (rng n)"
  shows "(int (card (vehicle_id ` set rs)) \<le> N \<longrightarrow> sample_rows rng (Some N) rs = Inr rs)
       \<and> (0 \<le> N \<and> N < int (card (vehicle_id ` set rs)) \<longrightarrow>
            (\<exists>rs'. sample_rows rng (Some N) rs = Inr rs'
                \<and> int (card (vehicle_id ` set rs')) = N
                \<and> vehicle_id ` set rs' \<subseteq> vehicle_id ` set rs
                \<and> (\<forall>k \<in> vehicle_id ` set rs'.
                      filter (\<lambda>r. vehicle_id r = k) rs' = filter (\<lambda>r. vehicle_id r = k) rs)))
       \<and> (\<forall>S T. S \<subseteq> vehicle_id ` set rs \<and> T \<subseteq> vehicle_id ` set rs
              \<and> int (card S) = N \<and> int (card T) = N \<longrightarrow>
            0 < card (draws_selecting N rs S)
            \<and> card (draws_selecting N rs S) = card (draws_selecting N rs T))"
proof -
  have a: "sample_rows rng (Some N) rs = Inr rs" if "int (card (vehicle_id ` set rs)) \<le> N"
    using that by (rule sample_all[OF assms])
  have b: "\<exists>rs'. sample_rows rng (Some N) rs = Inr rs'
                \<and> int (card (vehicle_id ` set rs')) = N
                \<and> vehicle_id ` set rs' \<subseteq> vehicle_id ` set rs
                \<and> (\<forall>k \<in> vehicle_id ` set rs'.
                      filter (\<lambda>r. vehicle_id r = k) rs' = filter (\<lambda>r. vehicle_id r = k) rs)"
    if "0 \<le> N \<and> N < int (card (vehicle_id ` set rs))"
  proof -
    from that obtain S
      where S: "sample_rows rng (Some N) rs = Inr (filter (\<lambda>r. vehicle_id r \<in> S) rs)"
        "S \<subseteq> vehicle_id ` set rs" "int (card S) = N"
      using sample_some[OF assms, of N rs] by blast
    let ?rs = "filter (\<lambda>r. vehicle_id r \<in> S) rs"
    have i: "vehicle_id ` set ?rs = S" using S(2) by (rule image_filter_keys)
    have k: "\<forall>k \<in> vehicle_id ` set ?rs.
          filter (\<lambda>r. vehicle_id r = k) ?rs = filter (\<lambda>r. vehicle_id r = k) rs"
      unfolding i by (intro ballI filter_filter_key)
    have c: "int (card (vehicle_id ` set ?rs)) = N" unfolding i by (rule S(3))
    have d: "vehicle_id ` set ?rs \<subseteq> vehicle_id ` set rs" unfolding i by (rule S(2))
    show ?thesis using S(1) k c d by blast
  qed
  have c: "0 < card (draws_selecting N rs S)
         \<and> card (draws_selecting N rs S) = card (draws_selecting N rs T)"
    if "S \<subseteq> vehicle_id ` set rs \<and> T \<subseteq> vehicle_id ` set rs
          \<and> int (card S) = N \<and> int (card T) = N" for S T
  proof -
    have "card S \<le> card (vehicle_id ` set rs)"
      using that by (intro card_mono) simp_all
    then have N: "0 \<le> N" "N \<le> int (card (vehicle_id ` set rs))" using that by auto
    have "card S = card T" using that by simp
    then have "card (draws_selecting N rs S) = card (draws_selecting N rs T)"
      unfolding draws_selecting_def using that N by (intro uniform_draw) simp_all
    moreover have "0 < card (draws_selecting N rs S)"
      unfolding draws_selecting_def using that by (intro possible_draw) simp_all
    ultimately show ?thesis by simp
  qed
  show ?thesis using a b c by blast
qed

theorem sampling_keeps_whole_vehicles_witness:
  "(\<forall>n. permutation_of n (rev [0..<n]))
   \<and> int (card (vehicle_id ` set example_rows)) \<le> 100
   \<and> sample_rows (\<lambda>n. rev [0..<n]) (Some 100) example_rows = Inr example_rows
   \<and> 0 \<le> (2::int) \<and> 2 < int (card (vehicle_id ` set example_rows))
   \<and> (\<exists>rs'. sample_rows (\<lambda>n. rev [0..<n]) (Some 2) example_rows = Inr rs'
         \<and> int (card (vehicle_id ` set rs')) = 2
         \<and> vehicle_id ` set rs' \<subseteq> vehicle_id ` set example_rows
         \<and> (\<forall>k \<in> vehicle_id ` set rs'.
               filter (\<lambda>r. vehicle_id r = k) rs' = filter (\<lambda>r. vehicle_id r = k) example_rows))
   \<and> {1, 2} \<subseteq> vehicle_id ` set example_rows \<and> {2, 3} \<subseteq> vehicle_id ` set example_rows
   \<and> int (card {1, 2 :: nat}) = 2 \<and> int (card {2, 3 :: nat}) = 2
   \<and> 0 < card (draws_selecting 2 example_rows {1, 2})
   \<and> card (draws_selecting 2 example_rows {1, 2}) = card (draws_selecting 2 example_rows {2, 3})"
proof -
  have p: "permutation_of n (rev [0..<n])" for n
    by (simp add: permutation_of_def)
  have "unique (map vehicle_id example_rows) = [2, 1, 3]"
    by (simp add: example_rows_def example_row_def)
  then have c: "card (vehicle_id ` set example_rows) = 3"
    using length_unique_card [of "map vehicle_id example_rows"] by simp
  have s: "{1, 2} \<subseteq> vehicle_id ` set example_rows" "{2, 3} \<subseteq> vehicle_id ` set example_rows"
    by (simp_all add: example_rows_def example_row_def)
  have k: "int (card {1, 2 :: nat}) = 2" "int (card {2, 3 :: nat}) = 2"
    by simp_all
  note t = sampling_keeps_whole_vehicles [where rng = "\<lambda>n. rev [0..<n]" and rs = example_rows, OF p]
  have 1: "sample_rows (\<lambda>n. rev [0..<n]) (Some 100) example_rows = Inr example_rows"
    using t [of 100] by (simp add: c)
  have 2: "\<exists>rs'. sample_rows (\<lambda>n. rev [0..<n]) (Some 2) example_rows = Inr rs'
         \<and> int (card (vehicle_id ` set rs')) = 2
         \<and> vehicle_id ` set rs' \<subseteq> vehicle_id ` set example_rows
         \<and> (\<forall>k \<in> vehicle_id ` set rs'.
               filter (\<lambda>r. vehicle_id r = k) rs' = filter (\<lambda>r. vehicle_id r = k) example_rows)"
    using t [of 2] by (simp add: c)
  have 3: "0 < card (draws_selecting 2 example_rows {1, 2})
     \<and> card (draws_selecting 2 example_rows {1, 2}) = card (draws_selecting 2 example_rows {2, 3})"
    using t [of 2] s k by blast
  show ?thesis using p c s k 1 2 3 by simp
qed

text \<open>
  C4. \<open>sort_values\<close> is a stable sort by the pair (vehicle_id, timestep_time): its result is
  ascending in that pair, is a permutation of its input, and keeps rows of equal keys in
  their order. Consequently, whenever the script gets as far as the arrays, the timestamps
  of every trip are non-decreasing (the narrowing to \<open>float32\<close> being monotone).
\<close>

theorem sorted_rows_and_trips:
  "sorted (map (\<lambda>r. (vehicle_id r, timestep_time r)) (sort_values xs))
   \<and> mset (sort_values xs) = mset xs
   \<and> (\<forall>k. filter (\<lambda>r. (vehicle_id r, timestep_time r) = k) (sort_values xs)
            = filter (\<lambda>r. (vehicle_id r, timestep_time r) = k) xs)
   \<and> (retained_rows SAMPLE_VEHICLES rng df = Inr rs \<longrightarrow>
        flatten f32 str_v str_e (columns df) rs = Inr fl \<longrightarrow> mono f32 \<longrightarrow>
        i < length (vehicle_ids fl) \<longrightarrow>
        sorted (trip_slice (offsets fl) (timestamps fl) i))"
proof (intro conjI impI allI)
  show "sorted (map (\<lambda>r. (vehicle_id r, timestep_time r)) (sort_values xs))"
    by (rule sorted_sort_values)
  show "mset (sort_values xs) = mset xs"
    by (simp add: sort_values_def)
  show "filter (\<lambda>r. (vehicle_id r, timestep_time r) = k) (sort_values xs)
            = filter (\<lambda>r. (vehicle_id r, timestep_time r) = k) xs" for k
    unfolding sort_values_def by (rule sort_key_stable)
next
  assume r: "retained_rows SAMPLE_VEHICLES rng df = Inr rs"
    and f: "flatten f32 str_v str_e (columns df) rs = Inr fl"
    and m: "mono f32" and i: "i < length (vehicle_ids fl)"
  have "sample_rows rng SAMPLE_VEHICLES (sort_values (time_filter (rows df))) = Inr rs"
    using r by (simp add: retained_rows_def split: if_splits)
  then obtain P where "rs = filter P (sort_values (time_filter (rows df)))"
    using sample_rows_filter by blast
  then have s: "sorted (map (\<lambda>r. (vehicle_id r, timestep_time r)) rs)"
    using sorted_filter[OF sorted_sort_values] by simp
  have fl: "fl = packed f32 str_v str_e (columns df) (grouped rs)"
    using f by (rule flatten_Inr)
  have ig: "i < length (grouped rs)" using i by (simp add: fl packed_def)
  have "trip_slice (offsets fl) (timestamps fl) i = trip_timestamps f32 (snd (grouped rs ! i))"
    using trip_slice_packed[of "\<lambda>g. trip_timestamps f32 (snd g)", OF _ ig]
    by (simp add: fl packed_def)
  also have "\<dots> = map f32 (map timestep_time
      (filter (\<lambda>r. vehicle_id r = fst (grouped rs ! i)) rs))"
    by (simp add: trip_timestamps_def nth_grouped[OF ig])
  finally show "sorted (trip_slice (offsets fl) (timestamps fl) i)"
    using sorted_map_mono[OF m sorted_group_times[OF s]] by simp
qed

theorem sorted_rows_and_trips_witness:
  "retained_rows None (\<lambda>n. rev [0..<n]) example_frame = Inr example_sorted
   \<and> flatten (\<lambda>x. x) str_nat str_nat (columns example_frame) example_sorted
       = Inr (packed (\<lambda>x. x) str_nat str_nat example_cols (grouped example_sorted))
   \<and> mono (\<lambda>x::real. x)
   \<and> 1 < length (vehicle_ids (packed (\<lambda>x. x) str_nat str_nat example_cols
                                  (grouped example_sorted)))
   \<and> sorted (trip_slice
       (offsets (packed (\<lambda>x. x) str_nat str_nat example_cols (grouped example_sorted)))
       (timestamps (packed (\<lambda>x. x) str_nat str_nat example_cols (grouped example_sorted))) 1)"
proof -
  let ?a = "packed (\<lambda>x. x) str_nat str_nat example_cols (grouped example_sorted)"
  have c: "columns example_frame = example_cols" by (simp add: example_frame_def)
  have r: "retained_rows None (\<lambda>n. rev [0..<n]) example_frame = Inr example_sorted"
    by (rule example_retained)
  have f: "flatten (\<lambda>x. x) str_nat str_nat (columns example_frame) example_sorted = Inr ?a"
    unfolding c by (rule example_sorted_flatten)
  have m: "mono (\<lambda>x::real. x)" by (simp add: mono_def)
  have i: "1 < length (vehicle_ids ?a)"
    by (simp add: packed_def example_sorted_grouped)
  from sorted_rows_and_trips [of "[]::(nat, nat) row list" None "\<lambda>n. rev [0..<n]" example_frame
      example_sorted "\<lambda>x. x" str_nat str_nat ?a 1]
  have "sorted (trip_slice (offsets ?a) (timestamps ?a) 1)"
    using r f m i by blast
  then show ?thesis using r f m i c by simp
qed



text \<open>
  C9, as stated, fails for identifiers that are not strings: for a frame with the integer
  identifiers 10 and 2 the script writes the \<open>vehicle_id\<close> column \<open>["2", "10"]\<close>, which is not
  ascending as a column of strings.
\<close>

theorem vehicle_id_column_unsorted:
  "column ''vehicle_id'' (main (\<lambda>x. x) str_int str_nat None (\<lambda>n. rev [0..<n]) int_frame)
     = Some (StringArray [''2'', ''10''])
   \<and> \<not> sorted [''2'', ''10'']"
proof -
  let ?a = "packed (\<lambda>x. x) str_int str_nat example_cols
              [(2, [int_row 2 25400]), (10, [int_row 10 25300])]"
  have f: "flatten (\<lambda>x. x) str_int str_nat (columns int_frame) [int_row 2 25400, int_row 10 25300]
             = Inr ?a"
    by (simp add: flatten_eq int_grouped) (simp add: int_frame_def example_cols_def)
  have v: "vehicle_ids ?a = [''2'', ''10'']" and ts: "timestamps ?a = [25400, 25300]"
    and o: "offsets ?a = [0, 1, 2]" and e: "edges ?a \<noteq> []"
    by (simp_all add: packed_def str_int_values trip_defs int_row_def example_cols_def)
  have "\<exists>T. assemble ?a = Inr T
           \<and> map_of T ''vehicle_id'' = Some (StringArray [''2'', ''10''])"
    by (subst assemble_eq) (simp_all add: v o e)
  then obtain T where T: "assemble ?a = Inr T"
      "map_of T ''vehicle_id'' = Some (StringArray [''2'', ''10''])"
    by blast
  have "column ''vehicle_id'' (main (\<lambda>x. x) str_int str_nat None (\<lambda>n. rev [0..<n]) int_frame)
     = Some (StringArray [''2'', ''10''])"
    by (simp add: column_def main_def int_retained f and_then_def np_min_def np_max_def ts T)
  moreover have "\<not> sorted [''2'', ''10'']"
    by (simp add: less_char_def less_eq_char_def)
  ultimately show ?thesis by simp
qed

text \<open>
  C9, amended. The trips are emitted in ascending order of the vehicle identifier, in the
  order of the identifiers themselves: the \<open>vehicle_id\<close> array is \<open>str\<close> applied to the
  distinct identifiers of the retained rows in ascending order. So the column is ascending
  whenever \<open>str\<close> preserves the order, as it does on identifiers that are strings.
\<close>

theorem trips_in_identifier_order:
  assumes "flatten f32 str_v str_e cols rs = Inr fl"
  shows "vehicle_ids fl = map str_v (sorted_list_of_set (vehicle_id ` set rs))
       \<and> ((\<forall>a b. a \<le> b \<longrightarrow> str_v a \<le> str_v b) \<longrightarrow> sorted (vehicle_ids fl))"
proof -
  have fl: "fl = packed f32 str_v str_e cols (grouped rs)"
    using assms by (rule flatten_Inr)
  have v: "vehicle_ids fl = map str_v (sorted_list_of_set (vehicle_id ` set rs))"
    using sort_unique[of "map vehicle_id rs"]
    by (simp add: fl packed_def grouped_def comp_def)
  have "sorted (map str_v (sorted_list_of_set (vehicle_id ` set rs)))"
    if "\<forall>a b. a \<le> b \<longrightarrow> str_v a \<le> str_v b"
    using that by (intro sorted_map_mono) (simp_all add: mono_def)
  then show ?thesis using v by simp
qed

theorem trips_in_identifier_order_witness:
  "flatten (\<lambda>x. x) (\<lambda>v. v) str_nat example_cols named_rows
     = Inr (packed (\<lambda>x. x) (\<lambda>v. v) str_nat example_cols (grouped named_rows))
   \<and> vehicle_ids (packed (\<lambda>x. x) (\<lambda>v. v) str_nat example_cols (grouped named_rows))
       = map (\<lambda>v. v) (sorted_list_of_set (vehicle_id ` set named_rows))
   \<and> sorted (vehicle_ids (packed (\<lambda>x. x) (\<lambda>v. v) str_nat example_cols (grouped named_rows)))"
  using trips_in_identifier_order [OF named_flatten [of "\<lambda>x. x" "\<lambda>v. v" str_nat]] named_flatten
  by simp

end
